theory Spec2Isabelle
  imports Complex_Main "HOL-Library.Word" "HOL-Library.Sublist" "HOL-Library.AList"
begin

unbundle bit_operations_syntax

section \<open>Python values used by \<open>db_client.py\<close>\<close>

text \<open>
  Exceptions.  Every exception the module handles is an instance of Python's
  \<open>Exception\<close>; it is modelled by its class and by the text \<open>str(e)\<close> that the
  f-strings of the module interpolate.  \<open>DriverError\<close> stands for the classes of the
  Snowflake connector itself.
\<close>

datatype exn_class =
  ValueError | TypeError | AttributeError | IndexError | ConnectionError | OSError | DriverError

datatype exn = Exn exn_class string

fun exn_class_of :: "exn \<Rightarrow> exn_class" where
  "exn_class_of (Exn c t) = c"

fun exn_text :: "exn \<Rightarrow> string" where
  "exn_text (Exn c t) = t"

text \<open>Strings are lists of bytes; a line feed and the UTF-8 encoding of U+1F4CA.\<close>

definition LF :: string where
  "LF = [CHR 0x0A]"


text \<open>\<open>sep.join(xs)\<close>.\<close>

fun join :: "string \<Rightarrow> string list \<Rightarrow> string" where
  "join sep [] = []"
| "join sep [x] = x"
| "join sep (x # y # ys) = x @ sep @ join sep (y # ys)"

text \<open>\<open>str(n)\<close> for a non-negative integer \<open>n\<close>: its decimal digits.\<close>

definition digit_char :: "nat \<Rightarrow> char" where
  "digit_char d = ''0123456789'' ! (d mod 10)"

fun str_nat :: "nat \<Rightarrow> string" where
  "str_nat n = (if n < 10 then [digit_char n] else str_nat (n div 10) @ [digit_char (n mod 10)])"



section \<open>The insight log: \<open>add_insight\<close> and \<open>get_memo\<close>\<close>

text \<open>
  The object state of \<open>SnowflakeDB\<close>, as \<open>__init__\<close> sets it up.  Handles returned
  by the driver are object identities; \<open>init_task\<close> refers to a task of the event loop
  by its position in the loop's list of tasks.  Times are real numbers of seconds: the
  rounding of Python's floating point subtraction is not modelled.
\<close>

type_synonym conn = nat
type_synonym cur = nat

record SnowflakeDB =
  connection_config :: "string \<rightharpoonup> string"
  connection :: "conn option"
  cursor :: "cur option"
  insights :: "string list"
  auth_time :: real
  init_task :: "nat option"

definition AUTH_EXPIRATION_TIME :: real where
  "AUTH_EXPIRATION_TIME = 1800"

definition new_SnowflakeDB :: "(string \<rightharpoonup> string) \<Rightarrow> SnowflakeDB" where
  "new_SnowflakeDB cfg =
     \<lparr>connection_config = cfg, connection = None, cursor = None, insights = [],
      auth_time = 0, init_task = None\<rparr>"

definition add_insight :: "string \<Rightarrow> SnowflakeDB \<Rightarrow> SnowflakeDB" where
  "add_insight insight self = self\<lparr>insights := insights self @ [insight]\<rparr>"





section \<open>The environment: driver, clock, random source\<close>

text \<open>
  The parameters \<open>_init_database\<close> passes to \<open>snowflake.connector.connect\<close>;
  \<open>dict.get\<close> yields \<open>None\<close> for a key the configuration lacks.
\<close>

record conn_params =
  p_account :: "string option"
  p_user :: "string option"
  p_authenticator :: "string option"
  p_private_key_file :: "string option"
  p_private_key_file_pwd :: "string option"
  p_warehouse :: "string option"
  p_database :: "string option"
  p_schema :: "string option"
  p_role :: "string option"

definition conn_params_of :: "(string \<rightharpoonup> string) \<Rightarrow> conn_params" where
  "conn_params_of cfg =
     \<lparr>p_account = cfg ''account'', p_user = cfg ''user'',
      p_authenticator = Some ''SNOWFLAKE_JWT'',
      p_private_key_file = cfg ''private_key_path'',
      p_private_key_file_pwd = cfg ''private_key_passphrase'',
      p_warehouse = cfg ''warehouse'', p_database = cfg ''database'',
      p_schema = cfg ''schema'', p_role = cfg ''role''\<rparr>"

text \<open>A column descriptor of \<open>cursor.description\<close>: the name (\<open>desc[0]\<close>) and a type code.\<close>

type_synonym descriptor = "string \<times> nat"

text \<open>
  Everything outside the module is a parameter: each driver call maps the state \<open>'w\<close> of
  the outside world to a result or an exception and a new state of the world.  Nothing is
  assumed about these functions, so a theorem about an arbitrary environment covers every
  behaviour of the driver.  \<open>'v\<close> is the type of the values in result rows.
\<close>

record ('w, 'v) env =
  sf_connect :: "conn_params \<Rightarrow> 'w \<Rightarrow> (exn + conn) \<times> 'w"
  conn_cursor :: "conn \<Rightarrow> 'w \<Rightarrow> (exn + cur) \<times> 'w"
  cur_execute :: "cur \<Rightarrow> string \<Rightarrow> 'w \<Rightarrow> (exn + unit) \<times> 'w"
  cur_description :: "cur \<Rightarrow> 'w \<Rightarrow> (exn + descriptor list option) \<times> 'w"
  cur_fetchone :: "cur \<Rightarrow> 'w \<Rightarrow> (exn + 'v list option) \<times> 'w"
  cur_fetchall :: "cur \<Rightarrow> 'w \<Rightarrow> (exn + 'v list list) \<times> 'w"
  time_time :: "'w \<Rightarrow> real"
  os_urandom16 :: "'w \<Rightarrow> 128 word \<times> 'w"
  py_str :: "'v \<Rightarrow> string"

text \<open>
  The driver calls a run has made, oldest first, each with who made it (the caller's own
  coroutine or a task of the event loop) and the exception it raised, if any: what a
  mocked driver with a call recorder would have seen.
\<close>

datatype origin = Direct | FromTask nat

datatype call =
  Connect conn_params | Cursor conn | Execute cur string | Description cur
  | Fetchone cur | Fetchall cur

type_synonym entry = "origin \<times> call \<times> exn option"

datatype log_level = DEBUG | ERROR

datatype task_state = Pending | Finished "exn option"

text \<open>
  The whole machine: the object, the tasks created on the event loop (in creation
  order), the outside world, the record of driver calls and the records handed to the
  module's logger.
\<close>

record 'w machine =
  db :: SnowflakeDB
  tasks :: "task_state list"
  world :: 'w
  calls :: "entry list"
  logged :: "(log_level \<times> string) list"

definition new_machine :: "(string \<rightharpoonup> string) \<Rightarrow> 'w \<Rightarrow> 'w machine" where
  "new_machine cfg w =
     \<lparr>db = new_SnowflakeDB cfg, tasks = [], world = w, calls = [], logged = []\<rparr>"

subsection \<open>Statements that may raise\<close>

type_synonym ('s, 'a) prog = "'s \<Rightarrow> (exn + 'a) \<times> 's"

definition return :: "'a \<Rightarrow> ('s, 'a) prog" where
  "return x s = (Inr x, s)"

definition raise :: "exn \<Rightarrow> ('s, 'a) prog" where
  "raise e s = (Inl e, s)"

text \<open>\<open>andthen f g\<close>: run \<open>f\<close>; unless it raised, run \<open>g\<close> on its result.\<close>

definition andthen :: "('s, 'a) prog \<Rightarrow> ('a \<Rightarrow> ('s, 'b) prog) \<Rightarrow> ('s, 'b) prog" where
  "andthen f g s = (case f s of (Inl e, s') \<Rightarrow> (Inl e, s') | (Inr x, s') \<Rightarrow> g x s')"

text \<open>
  \<open>try: f except Exception as e: h e\<close>.  The handler runs in the state the body
  left: nothing is rolled back.
\<close>

definition catch :: "('s, 'a) prog \<Rightarrow> (exn \<Rightarrow> ('s, 'a) prog) \<Rightarrow> ('s, 'a) prog" where
  "catch f h s = (case f s of (Inl e, s') \<Rightarrow> h e s' | (Inr x, s') \<Rightarrow> (Inr x, s'))"

definition lift :: "exn + 'a \<Rightarrow> ('s, 'a) prog" where
  "lift r s = (r, s)"

definition outcome :: "exn + 'a \<Rightarrow> exn option" where
  "outcome r = (case r of Inl e \<Rightarrow> Some e | Inr x \<Rightarrow> None)"

definition driver_call ::
  "origin \<Rightarrow> call \<Rightarrow> ('w \<Rightarrow> (exn + 'a) \<times> 'w) \<Rightarrow> ('w machine, 'a) prog" where
  "driver_call who c f m =
     (case f (world m) of
        (r, w') \<Rightarrow> (r, m\<lparr>world := w', calls := calls m @ [(who, c, outcome r)]\<rparr>))"

definition modify_db :: "(SnowflakeDB \<Rightarrow> SnowflakeDB) \<Rightarrow> ('w machine, unit) prog" where
  "modify_db f m = (Inr (), m\<lparr>db := f (db m)\<rparr>)"

definition logger_call :: "log_level \<Rightarrow> string \<Rightarrow> ('w machine, unit) prog" where
  "logger_call lvl msg m = (Inr (), m\<lparr>logged := logged m @ [(lvl, msg)]\<rparr>)"

section \<open>\<open>_init_database\<close>\<close>

definition init_database_try :: "('w, 'v) env \<Rightarrow> origin \<Rightarrow> ('w machine, unit) prog" where
  "init_database_try D who m =
     (let params = conn_params_of (connection_config (db m)) in
      andthen (driver_call who (Connect params) (sf_connect D params)) (\<lambda>c.
      andthen (modify_db (\<lambda>self. self\<lparr>connection := Some c\<rparr>)) (\<lambda>_.
      andthen (driver_call who (Cursor c) (conn_cursor D c)) (\<lambda>k.
      andthen (modify_db (\<lambda>self. self\<lparr>cursor := Some k\<rparr>)) (\<lambda>_.
      (\<lambda>m'. modify_db (\<lambda>self. self\<lparr>auth_time := time_time D (world m')\<rparr>) m'))))) m)"

definition connect_failed :: "exn \<Rightarrow> exn" where
  "connect_failed e = Exn ValueError (''Failed to connect to Snowflake database: '' @ exn_text e)"

definition init_database :: "('w, 'v) env \<Rightarrow> origin \<Rightarrow> ('w machine, unit) prog" where
  "init_database D who = catch (init_database_try D who) (\<lambda>e. raise (connect_failed e))"

section \<open>The background task\<close>

text \<open>
  \<open>start_init_connection\<close> creates a task on the event loop and keeps a reference to
  it.  The coroutine of the task is \<open>_init_database\<close>, which has no suspension point: a
  task is either not yet run or done.  A task runs when the loop gets control: all tasks
  not yet run, in the order of their creation.
\<close>

definition start_init_connection :: "('w machine, nat) prog" where
  "start_init_connection m =
     (Inr (length (tasks m)),
      m\<lparr>tasks := tasks m @ [Pending],
        db := (db m)\<lparr>init_task := Some (length (tasks m))\<rparr>\<rparr>)"

definition run_task :: "('w, 'v) env \<Rightarrow> nat \<Rightarrow> 'w machine \<Rightarrow> 'w machine" where
  "run_task D i m =
     (case init_database D (FromTask i) m of
        (r, m') \<Rightarrow> m'\<lparr>tasks := (tasks m')[i := Finished (outcome r)]\<rparr>)"

definition pending_tasks :: "'w machine \<Rightarrow> nat list" where
  "pending_tasks m = filter (\<lambda>i. tasks m ! i = Pending) [0..<length (tasks m)]"

definition loop_iteration :: "('w, 'v) env \<Rightarrow> 'w machine \<Rightarrow> 'w machine" where
  "loop_iteration D m = fold (run_task D) (pending_tasks m) m"

text \<open>\<open>self.init_task and not self.init_task.done()\<close>\<close>

definition task_pending :: "'w machine \<Rightarrow> bool" where
  "task_pending m =
     (case init_task (db m) of
        None \<Rightarrow> False
      | Some i \<Rightarrow> i < length (tasks m) \<and> tasks m ! i = Pending)"

text \<open>
  \<open>await self.init_task\<close>: the caller is suspended, the loop runs, and the caller
  resumes with the task's result: an exception the task raised is raised again.
\<close>

definition await_init_task :: "('w, 'v) env \<Rightarrow> ('w machine, unit) prog" where
  "await_init_task D m =
     (let m' = loop_iteration D m in
      case init_task (db m) of
        None \<Rightarrow> (Inr (), m')
      | Some i \<Rightarrow>
          if i < length (tasks m') then
            (case tasks m' ! i of
               Finished (Some e) \<Rightarrow> (Inl e, m')
             | _ \<Rightarrow> (Inr (), m'))
          else (Inr (), m'))"

text \<open>
  The first statement of both \<open>test_connection\<close> (lines 56 to 60) and
  \<open>execute_query\<close> (lines 87 to 91), which is the same text in both.
\<close>

definition ensure_session :: "('w, 'v) env \<Rightarrow> ('w machine, unit) prog" where
  "ensure_session D m =
     (if task_pending m then await_init_task D m
      else if connection (db m) = None
              \<or> time_time D (world m) - auth_time (db m) > AUTH_EXPIRATION_TIME
      then init_database D Direct m
      else (Inr (), m))"

section \<open>Calls on \<open>self.cursor\<close>\<close>

definition apostrophe :: string where
  "apostrophe = [CHR 0x27]"

definition quote_mark :: string where
  "quote_mark = [CHR 0x22]"

text \<open>The cursor is \<open>None\<close> until an initialization has got that far.\<close>

definition none_has_no :: "string \<Rightarrow> exn" where
  "none_has_no attr =
     Exn AttributeError
       (apostrophe @ ''NoneType'' @ apostrophe @ '' object has no attribute ''
        @ apostrophe @ attr @ apostrophe)"

definition cursor_execute :: "('w, 'v) env \<Rightarrow> string \<Rightarrow> ('w machine, unit) prog" where
  "cursor_execute D q m =
     (case cursor (db m) of
        None \<Rightarrow> (Inl (none_has_no ''execute''), m)
      | Some k \<Rightarrow> driver_call Direct (Execute k q) (cur_execute D k q) m)"

definition cursor_fetchone :: "('w, 'v) env \<Rightarrow> ('w machine, 'v list option) prog" where
  "cursor_fetchone D m =
     (case cursor (db m) of
        None \<Rightarrow> (Inl (none_has_no ''fetchone''), m)
      | Some k \<Rightarrow> driver_call Direct (Fetchone k) (cur_fetchone D k) m)"

definition cursor_fetchall :: "('w, 'v) env \<Rightarrow> ('w machine, 'v list list) prog" where
  "cursor_fetchall D m =
     (case cursor (db m) of
        None \<Rightarrow> (Inl (none_has_no ''fetchall''), m)
      | Some k \<Rightarrow> driver_call Direct (Fetchall k) (cur_fetchall D k) m)"

definition cursor_description ::
  "('w, 'v) env \<Rightarrow> ('w machine, descriptor list option) prog" where
  "cursor_description D m =
     (case cursor (db m) of
        None \<Rightarrow> (Inl (none_has_no ''description''), m)
      | Some k \<Rightarrow> driver_call Direct (Description k) (cur_description D k) m)"

section \<open>\<open>test_connection\<close>\<close>

text \<open>\<open>role, database, schema = self.cursor.fetchone()\<close>\<close>

definition unpack3 :: "'v list option \<Rightarrow> exn + 'v \<times> 'v \<times> 'v" where
  "unpack3 r =
     (case r of
        None \<Rightarrow> Inl (Exn TypeError ''cannot unpack non-iterable NoneType object'')
      | Some xs \<Rightarrow>
          if length xs < 3 then
            Inl (Exn ValueError
              (''not enough values to unpack (expected 3, got '' @ str_nat (length xs) @ '')''))
          else if length xs > 3 then
            Inl (Exn ValueError ''too many values to unpack (expected 3)'')
          else Inr (xs ! 0, xs ! 1, xs ! 2))"

text \<open>\<open>[table[1] for table in tables]\<close>\<close>

fun table_names :: "'v list list \<Rightarrow> exn + 'v list" where
  "table_names [] = Inr []"
| "table_names (t # ts) =
     (if length t < 2 then Inl (Exn IndexError ''tuple index out of range'')
      else (case table_names ts of Inl e \<Rightarrow> Inl e | Inr ns \<Rightarrow> Inr (t ! 1 # ns)))"

definition success_message :: "('w, 'v) env \<Rightarrow> 'v \<Rightarrow> 'v \<Rightarrow> 'v \<Rightarrow> 'v list \<Rightarrow> string" where
  "success_message D role database schema table_list =
     ''Connection successful!'' @ LF @ ''Role: '' @ py_str D role @ LF
     @ ''Database: '' @ py_str D database @ LF @ ''Schema: '' @ py_str D schema @ LF @ LF
     @ ''Available tables:'' @ LF
     @ join LF (map (\<lambda>table. ''- '' @ py_str D table) table_list)"

definition test_connection_try :: "('w, 'v) env \<Rightarrow> ('w machine, bool \<times> string) prog" where
  "test_connection_try D =
     andthen (ensure_session D) (\<lambda>_.
     andthen (cursor_execute D
        ''SELECT CURRENT_ROLE(), CURRENT_DATABASE(), CURRENT_SCHEMA()'') (\<lambda>_.
     andthen (cursor_fetchone D) (\<lambda>row.
     andthen (lift (unpack3 row)) (\<lambda>(role, database, schema).
     andthen (cursor_execute D ''SHOW TABLES'') (\<lambda>_.
     andthen (cursor_fetchall D) (\<lambda>tables.
     andthen (lift (table_names tables)) (\<lambda>table_list.
     return (True, success_message D role database schema table_list))))))))"

definition test_failed :: "exn \<Rightarrow> string" where
  "test_failed e = ''Connection test failed: '' @ exn_text e"

definition test_connection :: "('w, 'v) env \<Rightarrow> ('w machine, bool \<times> string) prog" where
  "test_connection D =
     catch (test_connection_try D) (\<lambda>e.
       andthen (logger_call ERROR (test_failed e)) (\<lambda>_.
       return (False, test_failed e)))"

section \<open>\<open>execute_query\<close>\<close>

text \<open>
  A Python \<open>dict\<close> keeps its keys in insertion order; storing under a key it already
  has replaces the value and keeps the key's place.  This is \<open>AList.update\<close>.
  \<open>dict(pairs)\<close> stores the pairs one after the other.
\<close>

type_synonym ('k, 'v) py_dict = "('k \<times> 'v) list"

definition dict_of :: "('k \<times> 'v) list \<Rightarrow> ('k, 'v) py_dict" where
  "dict_of pairs = foldl (\<lambda>d (k, v). AList.update k v d) [] pairs"

text \<open>\<open>[desc[0] for desc in self.cursor.description]\<close>; the attribute may be \<open>None\<close>.\<close>

definition column_names :: "descriptor list option \<Rightarrow> exn + string list" where
  "column_names description =
     (case description of
        None \<Rightarrow>
          Inl (Exn TypeError (apostrophe @ ''NoneType'' @ apostrophe @ '' object is not iterable''))
      | Some ds \<Rightarrow> Inr (map fst ds))"

text \<open>
  \<open>str(uuid.uuid4())\<close>, as the standard library computes it: sixteen random bytes
  read as a 128 bit number, the variant and version bits set, printed as 32 lower case
  hexadecimal digits in groups of 8, 4, 4, 4 and 12.
\<close>

definition uuid4_int :: "128 word \<Rightarrow> 128 word" where
  "uuid4_int r =
     (((r AND NOT (push_bit 48 0xC000)) OR push_bit 48 0x8000)
        AND NOT (push_bit 64 0xF000)) OR push_bit 76 4"

definition hex_char :: "nat \<Rightarrow> char" where
  "hex_char d = ''0123456789abcdef'' ! (d mod 16)"

definition nibble :: "128 word \<Rightarrow> nat \<Rightarrow> nat" where
  "nibble x i = unat (drop_bit (4 * i) x AND 0xF)"

definition hex32 :: "128 word \<Rightarrow> string" where
  "hex32 x = map (\<lambda>i. hex_char (nibble x i)) (rev [0..<32])"

definition uuid_str :: "128 word \<Rightarrow> string" where
  "uuid_str x =
     (let h = hex32 x in
      take 8 h @ ''-'' @ take 4 (drop 8 h) @ ''-'' @ take 4 (drop 12 h) @ ''-''
      @ take 4 (drop 16 h) @ ''-'' @ drop 20 h)"

definition uuid4 :: "('w, 'v) env \<Rightarrow> ('w machine, 128 word) prog" where
  "uuid4 D m = (case os_urandom16 D (world m) of (r, w') \<Rightarrow> (Inr (uuid4_int r), m\<lparr>world := w'\<rparr>))"

definition execute_query_try ::
  "('w, 'v) env \<Rightarrow> string \<Rightarrow> ('w machine, (string, 'v) py_dict list \<times> string) prog" where
  "execute_query_try D query =
     andthen (cursor_execute D query) (\<lambda>_.
     andthen (cursor_description D) (\<lambda>description.
     andthen (lift (column_names description)) (\<lambda>columns.
     andthen (cursor_fetchall D) (\<lambda>rows.
     andthen (uuid4 D) (\<lambda>u.
     return (map (\<lambda>row. dict_of (zip columns row)) rows, uuid_str u))))))"

definition query_failed :: "string \<Rightarrow> exn \<Rightarrow> string" where
  "query_failed query e =
     ''Database error executing '' @ quote_mark @ query @ quote_mark @ '': '' @ exn_text e"

definition execute_query ::
  "('w, 'v) env \<Rightarrow> string \<Rightarrow> ('w machine, (string, 'v) py_dict list \<times> string) prog" where
  "execute_query D query =
     andthen (ensure_session D) (\<lambda>_.
     andthen (logger_call DEBUG (''Executing query: '' @ query)) (\<lambda>_.
     catch (execute_query_try D query) (\<lambda>e.
       andthen (logger_call ERROR (query_failed query e)) (\<lambda>_.
       raise e))))"

section \<open>The public operations and the states they reach\<close>

datatype operation =
  TestConnection | ExecuteQuery string | StartInitConnection | AddInsight string | GetMemo

fun perform :: "('w, 'v) env \<Rightarrow> operation \<Rightarrow> 'w machine \<Rightarrow> 'w machine" where
  "perform D TestConnection m = snd (test_connection D m)"
| "perform D (ExecuteQuery q) m = snd (execute_query D q m)"
| "perform D StartInitConnection m = snd (start_init_connection m)"
| "perform D (AddInsight s) m = m\<lparr>db := add_insight s (db m)\<rparr>"
| "perform D GetMemo m = m"

text \<open>
  A state is reachable when it is the state after construction, or comes from a
  reachable state by a public operation, by the event loop running its tasks while the
  caller waits for something else, or by the outside world changing.
\<close>

inductive reachable :: "('w, 'v) env \<Rightarrow> 'w machine \<Rightarrow> bool" for D :: "('w, 'v) env" where
  constructed: "reachable D (new_machine cfg w)"
| performed: "reachable D m \<Longrightarrow> reachable D (perform D op m)"
| loop_ran: "reachable D m \<Longrightarrow> reachable D (loop_iteration D m)"
| world_changed: "reachable D m \<Longrightarrow> reachable D (m\<lparr>world := w\<rparr>)"

text \<open>
  Whether the most recent initialization succeeded, read off the record of driver
  calls: \<open>_init_database\<close> is the only caller of \<open>connect\<close> and of
  \<open>connection.cursor\<close>, and it succeeds exactly when its call to
  \<open>connection.cursor\<close>, the last call that can raise, returns.
\<close>

fun is_init_call :: "entry \<Rightarrow> bool" where
  "is_init_call (who, Connect p, r) = True"
| "is_init_call (who, Cursor c, r) = True"
| "is_init_call (who, other, r) = False"

definition last_init_succeeded :: "entry list \<Rightarrow> bool" where
  "last_init_succeeded es =
     (case rev (filter is_init_call es) of
        (who, Cursor c, None) # _ \<Rightarrow> True
      | _ \<Rightarrow> False)"

text \<open>The driver calls a step added to the record.\<close>

definition new_calls :: "'w machine \<Rightarrow> 'w machine \<Rightarrow> entry list" where
  "new_calls m m' = drop (length (calls m)) (calls m')"

fun is_connect :: "entry \<Rightarrow> bool" where
  "is_connect (who, Connect p, r) = True"
| "is_connect (who, other, r) = False"

fun is_direct :: "entry \<Rightarrow> bool" where
  "is_direct (Direct, c, r) = True"
| "is_direct (FromTask i, c, r) = False"

section \<open>A scripted environment\<close>

text \<open>
  A driver for the concrete runs below.  Its world is a counter of the calls it has
  served; the clock shows 1000 seconds per call.  \<open>connect\<close> succeeds only as the very
  first call and is refused afterwards.
\<close>

datatype pyval = PNone | PInt int | PStr string

fun str_pyval :: "pyval \<Rightarrow> string" where
  "str_pyval PNone = ''None''"
| "str_pyval (PInt i) = (if i < 0 then ''-'' @ str_nat (nat (- i)) else str_nat (nat i))"
| "str_pyval (PStr s) = s"

definition scripted :: "(nat, pyval) env" where
  "scripted =
     \<lparr>sf_connect = (\<lambda>p w.
        (if w = 0 then Inr 7 else Inl (Exn ConnectionError ''connection refused''), Suc w)),
      conn_cursor = (\<lambda>c w. (Inr 11, Suc w)),
      cur_execute = (\<lambda>k q w. (Inr (), Suc w)),
      cur_description = (\<lambda>k w. (Inr (Some [(''id'', 0), (''name'', 2)]), w)),
      cur_fetchone = (\<lambda>k w. (Inr (Some [PStr ''ANALYST'', PStr ''SALES'', PStr ''PUBLIC'']), Suc w)),
      cur_fetchall = (\<lambda>k w. (Inr [[PInt 1, PStr ''a''], [PInt 2, PStr ''b'']], Suc w)),
      time_time = (\<lambda>w. 1000 * real w),
      os_urandom16 = (\<lambda>w. (of_nat w, Suc w)),
      py_str = str_pyval\<rparr>"

subsection \<open>Machines and drivers of the concrete runs\<close>

text \<open>A machine that holds a session: the scripted driver after one initialization.\<close>

definition session_open :: "nat machine" where
  "session_open = snd (init_database scripted Direct (new_machine Map.empty 0))"

text \<open>Two queries on the scripted driver, from construction.\<close>

definition after_one_query :: "nat machine" where
  "after_one_query = perform scripted (ExecuteQuery ''SELECT 1'') (new_machine Map.empty 0)"

definition after_two_queries :: "nat machine" where
  "after_two_queries = perform scripted (ExecuteQuery ''SELECT 2'') after_one_query"



text \<open>The scripted driver, but every statement is rejected.\<close>

definition rejecting :: "(nat, pyval) env" where
  "rejecting =
     scripted\<lparr>cur_execute := (\<lambda>k q w. (Inl (Exn DriverError ''SQL compilation error''), Suc w))\<rparr>"

text \<open>The scripted driver, but both columns of the result are named \<open>id\<close>.\<close>

definition ambiguous :: "(nat, pyval) env" where
  "ambiguous = scripted\<lparr>cur_description := (\<lambda>k w. (Inr (Some [(''id'', 0), (''id'', 0)]), w))\<rparr>"

section \<open>Vocabulary of the proofs\<close>

text \<open>A statement keeps an observation \<open>g\<close> of the state when no run of it changes \<open>g\<close>.\<close>

definition keeps :: "('s \<Rightarrow> 'x) \<Rightarrow> ('s, 'a) prog \<Rightarrow> bool" where
  "keeps g f = (\<forall>s. g (snd (f s)) = g s)"

text \<open>A statement preserves an invariant \<open>I\<close> of the state.\<close>

definition preserves :: "('s \<Rightarrow> bool) \<Rightarrow> ('s, 'a) prog \<Rightarrow> bool" where
  "preserves I f = (\<forall>s. I s \<longrightarrow> I (snd (f s)))"

text \<open>What holds of the handles in every reachable state.\<close>

definition handles_ok :: "'w machine \<Rightarrow> bool" where
  "handles_ok m =
     ((cursor (db m) \<noteq> None \<longrightarrow> connection (db m) \<noteq> None)
      \<and> (last_init_succeeded (calls m) \<longrightarrow> connection (db m) \<noteq> None \<and> cursor (db m) \<noteq> None))"

text \<open>A statement adds to the record of driver calls only entries that satisfy \<open>Q\<close>.\<close>

definition adds :: "(entry \<Rightarrow> bool) \<Rightarrow> ('w machine, 'a) prog \<Rightarrow> bool" where
  "adds Q f = (\<forall>s. \<exists>new. calls (snd (f s)) = calls s @ new \<and> list_all Q new)"

text \<open>
  A statement reports when what it adds to the record of driver calls stands in the
  relation \<open>R\<close> to what it raised.  A relation is composable when it holds of the
  empty addition and is kept when a part that raised nothing is followed by another part.
\<close>

definition reports :: "(entry list \<Rightarrow> exn option \<Rightarrow> bool) \<Rightarrow> ('w machine, 'a) prog \<Rightarrow> bool" where
  "reports R f =
     (\<forall>s. \<exists>new. calls (snd (f s)) = calls s @ new \<and> R new (outcome (fst (f s))))"

definition composable :: "(entry list \<Rightarrow> exn option \<Rightarrow> bool) \<Rightarrow> bool" where
  "composable R =
     ((\<forall>r. R [] r) \<and> (\<forall>n1 n2 r. R n1 None \<and> R n2 r \<longrightarrow> R (n1 @ n2) r))"

text \<open>Every failed call of the caller's own is told in the text of what was raised.\<close>

definition told :: "entry list \<Rightarrow> exn option \<Rightarrow> bool" where
  "told new res =
     list_all (\<lambda>en. \<forall>e. is_direct en \<and> snd (snd en) = Some e \<longrightarrow>
        (\<exists>e'. res = Some e' \<and> sublist (exn_text e) (exn_text e'))) new"

text \<open>
  Only the last call added failed outside an initialization, and what it raised is what
  was raised.
\<close>

definition went_well :: "entry \<Rightarrow> bool" where
  "went_well en = (is_init_call en \<or> snd (snd en) = None)"

definition passed_on :: "entry list \<Rightarrow> exn option \<Rightarrow> bool" where
  "passed_on new res =
     (list_all went_well (butlast new)
      \<and> (res = None \<longrightarrow> list_all went_well new)
      \<and> list_all (\<lambda>en. went_well en \<or> res = snd (snd en)) new)"

section \<open>Properties\<close>

subsection \<open>Printing numbers\<close>


subsection \<open>Running statements\<close>

lemma andthen_Inl: "f s = (Inl e, s') \<Longrightarrow> andthen f g s = (Inl e, s')"
  by (simp add: andthen_def)

lemma andthen_Inr: "f s = (Inr x, s') \<Longrightarrow> andthen f g s = g x s'"
  by (simp add: andthen_def)



lemma prog_cases:
  obtains (Raised) e s' where "f s = (Inl e, s')" | (Returned) x s' where "f s = (Inr x, s')"
  by (cases "f s"; cases "fst (f s)"; force)

lemma keeps_andthen: "keeps g f \<Longrightarrow> (\<And>x. keeps g (h x)) \<Longrightarrow> keeps g (andthen f h)"
  unfolding keeps_def andthen_def by (auto split: prod.splits sum.splits) (metis snd_conv)+

lemma keeps_catch: "keeps g f \<Longrightarrow> (\<And>e. keeps g (h e)) \<Longrightarrow> keeps g (catch f h)"
  unfolding keeps_def catch_def by (auto split: prod.splits sum.splits) (metis snd_conv)+

lemma keeps_pure: "keeps g (return x)" "keeps g (raise e)" "keeps g (lift r)"
  by (simp_all add: keeps_def return_def raise_def lift_def)

lemma keeps_driver_call: "(\<And>m w c. g (m\<lparr>world := w, calls := c\<rparr>) = g m) \<Longrightarrow> keeps g (driver_call who c f)"
  by (simp add: keeps_def driver_call_def split: prod.splits)

lemma keeps_logger_call: "(\<And>m l. g (m\<lparr>logged := l\<rparr>) = g m) \<Longrightarrow> keeps g (logger_call lvl msg)"
  by (simp add: keeps_def logger_call_def)

lemmas prog_defs = andthen_def catch_def return_def raise_def lift_def driver_call_def
  modify_db_def logger_call_def outcome_def

lemmas run_defs = prog_defs init_database_def init_database_try_def connect_failed_def
  conn_params_of_def new_machine_def new_SnowflakeDB_def scripted_def

subsection \<open>The three outcomes of \<open>_init_database\<close>\<close>

lemma init_database_connect_raises:
  assumes "sf_connect D (conn_params_of (connection_config (db m))) (world m) = (Inl e, w')"
  shows "init_database D who m =
     (Inl (connect_failed e),
      m\<lparr>world := w',
        calls := calls m @ [(who, Connect (conn_params_of (connection_config (db m))), Some e)]\<rparr>)"
  using assms by (simp add: init_database_def init_database_try_def prog_defs Let_def)

lemma init_database_cursor_raises:
  assumes "sf_connect D (conn_params_of (connection_config (db m))) (world m) = (Inr c, w')"
    and "conn_cursor D c w' = (Inl e, w'')"
  shows "init_database D who m =
     (Inl (connect_failed e),
      m\<lparr>db := (db m)\<lparr>connection := Some c\<rparr>, world := w'',
        calls := calls m @ [(who, Connect (conn_params_of (connection_config (db m))), None),
                            (who, Cursor c, Some e)]\<rparr>)"
  using assms by (simp add: init_database_def init_database_try_def prog_defs Let_def)

lemma init_database_succeeds:
  assumes "sf_connect D (conn_params_of (connection_config (db m))) (world m) = (Inr c, w')"
    and "conn_cursor D c w' = (Inr k, w'')"
  shows "init_database D who m =
     (Inr (),
      m\<lparr>db := (db m)\<lparr>connection := Some c, cursor := Some k, auth_time := time_time D w''\<rparr>,
        world := w'',
        calls := calls m @ [(who, Connect (conn_params_of (connection_config (db m))), None),
                            (who, Cursor c, None)]\<rparr>)"
  using assms by (simp add: init_database_def init_database_try_def prog_defs Let_def)

lemma init_database_cases:
  obtains (connect_raises) e w' where
      "sf_connect D (conn_params_of (connection_config (db m))) (world m) = (Inl e, w')"
  | (cursor_raises) c w' e w'' where
      "sf_connect D (conn_params_of (connection_config (db m))) (world m) = (Inr c, w')"
      "conn_cursor D c w' = (Inl e, w'')"
  | (succeeds) c w' k w'' where
      "sf_connect D (conn_params_of (connection_config (db m))) (world m) = (Inr c, w')"
      "conn_cursor D c w' = (Inr k, w'')"
proof -
  obtain r w' where 1: "sf_connect D (conn_params_of (connection_config (db m))) (world m) = (r, w')"
    by (cases "sf_connect D (conn_params_of (connection_config (db m))) (world m)")
  show thesis
  proof (cases r)
    case (Inl e) with 1 connect_raises show ?thesis by blast
  next
    case (Inr c)
    obtain r2 w'' where 2: "conn_cursor D c w' = (r2, w'')" by (cases "conn_cursor D c w'")
    show ?thesis using 1 2 Inr cursor_raises succeeds by (cases r2) blast+
  qed
qed

text \<open>
  Claim C6.  When the driver's \<open>connect\<close> raises, as it does for a configuration that
  lacks credentials, \<open>_init_database\<close> raises and the object is exactly as before: the
  connection handle, the cursor handle and the authentication time are untouched.
\<close>
theorem init_failure_at_connect_leaves_state:
  assumes "sf_connect D (conn_params_of (connection_config (db m))) (world m) = (Inl e, w')"
  shows "fst (init_database D who m) = Inl (connect_failed e)
       \<and> db (snd (init_database D who m)) = db m
       \<and> connection (db (snd (init_database D who m))) = connection (db m)
       \<and> cursor (db (snd (init_database D who m))) = cursor (db m)
       \<and> auth_time (db (snd (init_database D who m))) = auth_time (db m)"
  by (simp add: init_database_connect_raises [OF assms])

lemma session_open_state:
  "connection (db session_open) = Some 7" "cursor (db session_open) = Some 11"
  "auth_time (db session_open) = 2000" "world session_open = 2"
  "connection_config (db session_open) = Map.empty" "tasks session_open = []"
  "init_task (db session_open) = None"
  by (simp_all add: session_open_def run_defs Let_def)

theorem init_failure_at_connect_leaves_state_witness:
  "sf_connect scripted (conn_params_of (connection_config (db session_open))) (world session_open)
     = (Inl (Exn ConnectionError ''connection refused''), 3)
   \<and> fst (init_database scripted Direct session_open)
     = Inl (Exn ValueError ''Failed to connect to Snowflake database: connection refused'')
   \<and> connection (db (snd (init_database scripted Direct session_open))) = Some 7
   \<and> cursor (db (snd (init_database scripted Direct session_open))) = Some 11
   \<and> auth_time (db (snd (init_database scripted Direct session_open))) = 2000"
proof -
  have h: "sf_connect scripted (conn_params_of (connection_config (db session_open)))
      (world session_open) = (Inl (Exn ConnectionError ''connection refused''), 3)"
    by (simp add: session_open_state) (simp add: scripted_def)
  from init_failure_at_connect_leaves_state [OF h, of Direct] h show ?thesis
    by (simp add: session_open_state connect_failed_def)
qed

subsection \<open>The insight log\<close>

lemma keeps_modify_db: "(\<And>m d. g (m\<lparr>db := d\<rparr>) = g m) \<Longrightarrow> keeps g (modify_db f)"
  by (simp add: keeps_def modify_db_def)

lemma insights_init_database: "insights (db (snd (init_database D who m))) = insights (db m)"
  by (cases rule: init_database_cases [of D m])
     (simp_all add: init_database_connect_raises init_database_cursor_raises init_database_succeeds)

lemma insights_run_task: "insights (db (run_task D i m)) = insights (db m)"
  using insights_init_database [of D "FromTask i" m]
  by (cases "init_database D (FromTask i) m") (simp add: run_task_def)

lemma insights_fold_run_task: "insights (db (fold (run_task D) js m)) = insights (db m)"
  by (induction js arbitrary: m) (simp_all add: insights_run_task)

lemma insights_loop_iteration: "insights (db (loop_iteration D m)) = insights (db m)"
  by (simp add: loop_iteration_def insights_fold_run_task)

lemma keeps_insights_ensure_session: "keeps (\<lambda>m. insights (db m)) (ensure_session D)"
  by (simp add: keeps_def ensure_session_def await_init_task_def Let_def
      insights_init_database insights_loop_iteration split: option.splits task_state.splits)

lemma keeps_insights_cursor:
  "keeps (\<lambda>m. insights (db m)) (cursor_execute D q)"
  "keeps (\<lambda>m. insights (db m)) (cursor_fetchone D)"
  "keeps (\<lambda>m. insights (db m)) (cursor_fetchall D)"
  "keeps (\<lambda>m. insights (db m)) (cursor_description D)"
  by (simp_all add: keeps_def cursor_execute_def cursor_fetchone_def cursor_fetchall_def
      cursor_description_def driver_call_def split: option.splits prod.splits)

lemma keeps_insights_uuid4: "keeps (\<lambda>m. insights (db m)) (uuid4 D)"
  by (simp add: keeps_def uuid4_def split: prod.splits)

lemma keeps_case_prod: "(\<And>a b. keeps g (f a b)) \<Longrightarrow> keeps g (case_prod f p)"
  by (cases p) simp

lemma keeps_insights_test_connection: "keeps (\<lambda>m. insights (db m)) (test_connection D)"
  unfolding test_connection_def test_connection_try_def
  by (intro keeps_catch keeps_andthen keeps_insights_ensure_session keeps_insights_cursor
      keeps_pure keeps_logger_call keeps_case_prod) simp_all

lemma keeps_insights_execute_query: "keeps (\<lambda>m. insights (db m)) (execute_query D q)"
  unfolding execute_query_def execute_query_try_def
  by (intro keeps_catch keeps_andthen keeps_insights_ensure_session keeps_insights_cursor
      keeps_insights_uuid4 keeps_pure keeps_logger_call) simp_all

text \<open>
  Claim C9.  The insight log is append-only.  Whatever public operation is performed, in
  whatever state and with whatever driver, the log before it is a prefix of the log after
  it; \<open>add_insight\<close> puts exactly the given string at the end, whatever the string and
  whatever the log holds already; every other operation leaves the log as it is, and so does
  the event loop when it runs a background initialization.
\<close>
theorem insight_log_append_only:
  "prefix (insights (db m)) (insights (db (perform D op m)))
   \<and> insights (db (perform D (AddInsight s) m)) = insights (db m) @ [s]
   \<and> (case op of AddInsight t \<Rightarrow> True
       | _ \<Rightarrow> insights (db (perform D op m)) = insights (db m))
   \<and> insights (db (loop_iteration D m)) = insights (db m)"
proof -
  have "insights (db (perform D op m)) = insights (db m)" if "\<And>t. op \<noteq> AddInsight t"
    using that keeps_insights_test_connection [of D] keeps_insights_execute_query [of D]
    by (cases op) (auto simp: keeps_def start_init_connection_def)
  moreover have "insights (db (perform D (AddInsight t) m)) = insights (db m) @ [t]" for t
    by (simp add: add_insight_def)
  ultimately show ?thesis
    by (cases op) (simp_all add: insights_loop_iteration)
qed



subsection \<open>Failures of \<open>_init_database\<close>\<close>

lemma new_calls_append [simp]: "calls m' = calls m @ new \<Longrightarrow> new_calls m m' = new"
  by (simp add: new_calls_def)

lemma sublist_after: "sublist t (p @ t)"
  using sublist_appendI [of t p "[]"] by simp

lemma sublist_wrapped: "sublist (exn_text e) (exn_text (connect_failed e))"
  by (simp add: connect_failed_def sublist_after del: append.simps)

text \<open>
  Claim C5, as amended.  Whenever a driver call made by \<open>_init_database\<close> raises (the
  call that opens the connection or the call that opens the cursor), \<open>_init_database\<close>
  raises a \<open>ValueError\<close> whose text is \<open>Failed to connect to Snowflake database: \<close>
  followed by the text of the driver's error; and it raises nothing else: every error it
  raises is a \<open>ValueError\<close> of this form, so its text contains the text of a driver
  error raised during the call.
\<close>
theorem init_failure_is_value_error:
  "(\<forall>en \<in> set (new_calls m (snd (init_database D who m))). \<forall>e. snd (snd en) = Some e \<longrightarrow>
      fst (init_database D who m)
        = Inl (Exn ValueError (''Failed to connect to Snowflake database: '' @ exn_text e)))
   \<and> (\<forall>e'. fst (init_database D who m) = Inl e' \<longrightarrow>
        exn_class_of e' = ValueError
        \<and> (\<exists>en \<in> set (new_calls m (snd (init_database D who m))). \<exists>e.
              snd (snd en) = Some e
              \<and> exn_text e' = ''Failed to connect to Snowflake database: '' @ exn_text e
              \<and> sublist (exn_text e) (exn_text e')))"
proof (cases rule: init_database_cases [of D m])
  case (connect_raises e w')
  show ?thesis
    using sublist_wrapped [of e]
    by (simp add: init_database_connect_raises [OF connect_raises] connect_failed_def)
next
  case (cursor_raises c w' e w'')
  show ?thesis
    using sublist_wrapped [of e]
    by (simp add: init_database_cursor_raises [OF cursor_raises] connect_failed_def)
next
  case (succeeds c w' k w'')
  show ?thesis
    by (simp add: init_database_succeeds [OF succeeds])
qed

lemma init_refused:
  "init_database scripted Direct session_open =
     (Inl (Exn ValueError ''Failed to connect to Snowflake database: connection refused''),
      session_open\<lparr>world := 3,
        calls := calls session_open @
          [(Direct, Connect (conn_params_of Map.empty), Some (Exn ConnectionError ''connection refused''))]\<rparr>)"
proof -
  have h: "sf_connect scripted (conn_params_of (connection_config (db session_open)))
      (world session_open) = (Inl (Exn ConnectionError ''connection refused''), 3)"
    by (simp add: session_open_state) (simp add: scripted_def)
  show ?thesis
    by (simp add: init_database_connect_raises [OF h] connect_failed_def session_open_state)
qed

text \<open>
  The claim as stated names the class \<open>ConnectionError\<close>.  With the driver refusing the
  connection, by a \<open>ConnectionError\<close> of its own, what \<open>_init_database\<close> raises is a
  \<open>ValueError\<close>, not a \<open>ConnectionError\<close>.
\<close>

theorem init_failure_not_connection_error:
  "new_calls session_open (snd (init_database scripted Direct session_open))
     = [(Direct, Connect (conn_params_of Map.empty), Some (Exn ConnectionError ''connection refused''))]
   \<and> map_option exn_class_of (outcome (fst (init_database scripted Direct session_open)))
     = Some ValueError
   \<and> map_option exn_class_of (outcome (fst (init_database scripted Direct session_open)))
     \<noteq> Some ConnectionError"
  by (simp add: init_refused outcome_def)

theorem init_failure_is_value_error_witness:
  "(Direct, Connect (conn_params_of Map.empty), Some (Exn ConnectionError ''connection refused''))
     \<in> set (new_calls session_open (snd (init_database scripted Direct session_open)))
   \<and> fst (init_database scripted Direct session_open)
     = Inl (Exn ValueError ''Failed to connect to Snowflake database: connection refused'')
   \<and> exn_class_of (Exn ValueError ''Failed to connect to Snowflake database: connection refused'')
     = ValueError"
proof -
  have mem: "(Direct, Connect (conn_params_of Map.empty), Some (Exn ConnectionError ''connection refused''))
     \<in> set (new_calls session_open (snd (init_database scripted Direct session_open)))"
    by (simp add: init_refused)
  from init_failure_is_value_error [of session_open scripted Direct] mem
  have "fst (init_database scripted Direct session_open)
        = Inl (Exn ValueError (''Failed to connect to Snowflake database: ''
            @ exn_text (Exn ConnectionError ''connection refused'')))"
    by fastforce
  with mem show ?thesis by simp
qed

subsection \<open>Handles in reachable states\<close>

lemma preserves_andthen:
  "preserves I f \<Longrightarrow> (\<And>x. preserves I (h x)) \<Longrightarrow> preserves I (andthen f h)"
  unfolding preserves_def andthen_def by (auto split: prod.splits sum.splits)

lemma preserves_catch:
  "preserves I f \<Longrightarrow> (\<And>e. preserves I (h e)) \<Longrightarrow> preserves I (catch f h)"
  unfolding preserves_def catch_def by (auto split: prod.splits sum.splits)

lemma preserves_pure: "preserves I (return x)" "preserves I (raise e)" "preserves I (lift r)"
  by (simp_all add: preserves_def return_def raise_def lift_def)

lemma preserves_case_prod:
  "(\<And>a b. preserves I (f a b)) \<Longrightarrow> preserves I (case_prod f p)"
  by (cases p) simp

lemma last_init_succeeded_snoc:
  "\<not> is_init_call en \<Longrightarrow> last_init_succeeded (es @ [en]) = last_init_succeeded es"
  "last_init_succeeded (es @ [(who, Connect p, r)]) = False"
  "last_init_succeeded (es @ [(who, Cursor c, r)]) = (r = None)"
  by (simp_all add: last_init_succeeded_def split: option.splits)

lemma last_init_succeeded_snoc2:
  "last_init_succeeded (es @ [en, (who, Cursor c, r)]) = (r = None)"
  using last_init_succeeded_snoc(3) [of "es @ [en]" who c r] by simp

lemma handles_ok_init_database: "preserves handles_ok (init_database D who)"
  unfolding preserves_def
proof (intro allI impI)
  fix m :: "'a machine" assume "handles_ok m"
  then show "handles_ok (snd (init_database D who m))"
    by (cases rule: init_database_cases [of D m])
       (auto simp: init_database_connect_raises init_database_cursor_raises
          init_database_succeeds handles_ok_def last_init_succeeded_snoc
          last_init_succeeded_snoc2)
qed

lemma handles_ok_run_task: "handles_ok m \<Longrightarrow> handles_ok (run_task D i m)"
  using handles_ok_init_database [of D "FromTask i"]
  by (cases "init_database D (FromTask i) m") (auto simp: run_task_def preserves_def handles_ok_def)

lemma handles_ok_fold_run_task: "handles_ok m \<Longrightarrow> handles_ok (fold (run_task D) js m)"
  by (induction js arbitrary: m) (simp_all add: handles_ok_run_task)

lemma handles_ok_loop_iteration: "handles_ok m \<Longrightarrow> handles_ok (loop_iteration D m)"
  by (simp add: loop_iteration_def handles_ok_fold_run_task)

lemma handles_ok_ensure_session: "preserves handles_ok (ensure_session D)"
  using handles_ok_init_database [of D Direct]
  by (auto simp: preserves_def ensure_session_def await_init_task_def Let_def
      handles_ok_loop_iteration split: option.splits task_state.splits)

lemma handles_ok_cursor:
  "preserves handles_ok (cursor_execute D q)"
  "preserves handles_ok (cursor_fetchone D)"
  "preserves handles_ok (cursor_fetchall D)"
  "preserves handles_ok (cursor_description D)"
  by (auto simp: preserves_def cursor_execute_def cursor_fetchone_def cursor_fetchall_def
      cursor_description_def driver_call_def handles_ok_def last_init_succeeded_snoc
      split: option.splits prod.splits)

lemma handles_ok_logger_call: "preserves handles_ok (logger_call lvl msg)"
  by (simp add: preserves_def logger_call_def handles_ok_def)

lemma handles_ok_uuid4: "preserves handles_ok (uuid4 D)"
  by (simp add: preserves_def uuid4_def handles_ok_def split: prod.splits)

lemma handles_ok_test_connection: "preserves handles_ok (test_connection D)"
  unfolding test_connection_def test_connection_try_def
  by (intro preserves_catch preserves_andthen handles_ok_ensure_session handles_ok_cursor
      preserves_pure handles_ok_logger_call preserves_case_prod)

lemma handles_ok_execute_query: "preserves handles_ok (execute_query D q)"
  unfolding execute_query_def execute_query_try_def
  by (intro preserves_catch preserves_andthen handles_ok_ensure_session handles_ok_cursor
      handles_ok_uuid4 preserves_pure handles_ok_logger_call)

lemma handles_ok_perform: "handles_ok m \<Longrightarrow> handles_ok (perform D op m)"
  using handles_ok_test_connection [of D] handles_ok_execute_query [of D]
  by (cases op) (auto simp: preserves_def handles_ok_def start_init_connection_def add_insight_def)

lemma reachable_handles_ok: "reachable D m \<Longrightarrow> handles_ok m"
proof (induction rule: reachable.induct)
  case (constructed cfg w)
  show ?case
    by (simp add: handles_ok_def new_machine_def new_SnowflakeDB_def last_init_succeeded_def)
next
  case (performed m op)
  then show ?case by (simp add: handles_ok_perform)
next
  case (loop_ran m)
  then show ?case by (simp add: handles_ok_loop_iteration)
next
  case (world_changed m w)
  then show ?case by (simp add: handles_ok_def)
qed

text \<open>
  Claim C8, as amended.  In every reachable state a cursor handle exists only if a
  connection handle exists, and if the most recent initialization succeeded then both a
  connection handle and a cursor handle exist.
\<close>
theorem cursor_needs_connection:
  assumes "reachable D m"
  shows "(cursor (db m) \<noteq> None \<longrightarrow> connection (db m) \<noteq> None)
       \<and> (last_init_succeeded (calls m) \<longrightarrow> connection (db m) \<noteq> None \<and> cursor (db m) \<noteq> None)"
  using reachable_handles_ok [OF assms] by (simp add: handles_ok_def)

lemmas eval_defs = run_defs ensure_session_def task_pending_def AUTH_EXPIRATION_TIME_def
  cursor_execute_def cursor_description_def cursor_fetchall_def cursor_fetchone_def
  column_names_def uuid4_def execute_query_def execute_query_try_def
  test_connection_def test_connection_try_def

lemma after_one_query_state:
  "connection (db after_one_query) = Some 7" "cursor (db after_one_query) = Some 11"
  "auth_time (db after_one_query) = 2000" "world after_one_query = 5"
  "init_task (db after_one_query) = None"
  "connection_config (db after_one_query) = Map.empty"
  "calls after_one_query =
     [(Direct, Connect (conn_params_of Map.empty), None), (Direct, Cursor 7, None),
      (Direct, Execute 11 ''SELECT 1'', None), (Direct, Description 11, None),
      (Direct, Fetchall 11, None)]"
  by (simp_all add: after_one_query_def eval_defs Let_def)

lemma after_two_queries_state:
  "connection (db after_two_queries) = Some 7" "cursor (db after_two_queries) = Some 11"
  "calls after_two_queries =
     calls after_one_query @
     [(Direct, Connect (conn_params_of Map.empty), Some (Exn ConnectionError ''connection refused''))]"
  by (simp_all add: after_two_queries_def execute_query_def ensure_session_def task_pending_def 
     after_one_query_state AUTH_EXPIRATION_TIME_def scripted_def init_database_connect_raises prog_defs)

lemma reachable_after_queries:
  "reachable scripted after_one_query" "reachable scripted after_two_queries"
  unfolding after_one_query_def after_two_queries_def
  by (intro reachable.intros)+

text \<open>
  The claim as stated is an equivalence.  After a query that initialized the session and a
  second query, past the expiry, whose initialization the driver refuses, the cursor and
  the connection of the first initialization are still there although the most recent
  initialization failed.
\<close>

theorem cursor_outlives_failed_init:
  "reachable scripted after_two_queries
   \<and> \<not> (cursor (db after_two_queries) \<noteq> None
        \<longleftrightarrow> connection (db after_two_queries) \<noteq> None
            \<and> last_init_succeeded (calls after_two_queries))"
  by (simp add: reachable_after_queries after_two_queries_state last_init_succeeded_snoc)

theorem cursor_needs_connection_witness:
  "reachable scripted after_one_query
   \<and> last_init_succeeded (calls after_one_query)
   \<and> connection (db after_one_query) \<noteq> None \<and> cursor (db after_one_query) \<noteq> None"
proof -
  have "last_init_succeeded (calls after_one_query)"
    by (simp add: after_one_query_state last_init_succeeded_def)
  with cursor_needs_connection [OF reachable_after_queries(1)] reachable_after_queries(1)
  show ?thesis by blast
qed

subsection \<open>The session check\<close>

lemma addsD: "adds Q f \<Longrightarrow> \<exists>new. calls (snd (f s)) = calls s @ new \<and> list_all Q new"
  by (simp add: adds_def)







lemma adds_driver_call: "(\<And>r. Q (who, c, r)) \<Longrightarrow> adds Q (driver_call who c f)"
  by (simp add: adds_def driver_call_def split: prod.splits)









text \<open>What an initialization adds to the record and keeps.\<close>

lemma init_database_calls:
  "\<exists>n. calls (snd (init_database D who m)) = calls m @ n
      \<and> list_all (\<lambda>en. fst en = who \<and> is_init_call en) n
      \<and> length (filter is_connect n) = 1"
  by (cases rule: init_database_cases [of D m])
     (simp_all add: init_database_connect_raises init_database_cursor_raises
        init_database_succeeds)

lemma init_database_tasks:
  "tasks (snd (init_database D who m)) = tasks m"
  "init_task (db (snd (init_database D who m))) = init_task (db m)"
  by (cases rule: init_database_cases [of D m];
      simp add: init_database_connect_raises init_database_cursor_raises
        init_database_succeeds)+

lemma run_task_facts:
  "\<exists>n. calls (run_task D i m) = calls m @ n
      \<and> list_all (\<lambda>en. \<not> is_direct en \<and> is_init_call en) n"
  "\<exists>r. tasks (run_task D i m) = (tasks m)[i := Finished r]"
  "init_task (db (run_task D i m)) = init_task (db m)"
proof -
  obtain r m' where rm: "init_database D (FromTask i) m = (r, m')"
    by (cases "init_database D (FromTask i) m")
  from init_database_calls [of D "FromTask i" m] rm
  obtain n where "calls m' = calls m @ n" "list_all (\<lambda>en. fst en = FromTask i \<and> is_init_call en) n"
    by auto
  moreover have "\<not> is_direct en" if "fst en = FromTask i" for en :: entry
    using that by (cases en) auto
  ultimately show "\<exists>n. calls (run_task D i m) = calls m @ n
      \<and> list_all (\<lambda>en. \<not> is_direct en \<and> is_init_call en) n"
    using rm by (auto simp: run_task_def list_all_iff)
  show "\<exists>r. tasks (run_task D i m) = (tasks m)[i := Finished r]"
    using rm init_database_tasks(1) [of D "FromTask i" m] by (auto simp: run_task_def)
  show "init_task (db (run_task D i m)) = init_task (db m)"
    using rm init_database_tasks(2) [of D "FromTask i" m] by (auto simp: run_task_def)
qed

lemma fold_run_task_facts:
  "(\<exists>n. calls (fold (run_task D) js m) = calls m @ n
      \<and> list_all (\<lambda>en. \<not> is_direct en \<and> is_init_call en) n)
   \<and> length (tasks (fold (run_task D) js m)) = length (tasks m)
   \<and> init_task (db (fold (run_task D) js m)) = init_task (db m)
   \<and> (\<forall>i < length (tasks m). i \<in> set js \<or> tasks m ! i \<noteq> Pending
        \<longrightarrow> tasks (fold (run_task D) js m) ! i \<noteq> Pending)"
proof (induction js arbitrary: m)
  case Nil
  show ?case by simp
next
  case (Cons j js)
  obtain n1 where n1: "calls (run_task D j m) = calls m @ n1"
      "list_all (\<lambda>en. \<not> is_direct en \<and> is_init_call en) n1"
    using run_task_facts(1) [of D j m] by blast
  obtain r where r: "tasks (run_task D j m) = (tasks m)[j := Finished r]"
    using run_task_facts(2) [of D j m] by blast
  note IH = Cons.IH [of "run_task D j m"]
  from IH obtain n2 where n2: "calls (fold (run_task D) js (run_task D j m)) = calls (run_task D j m) @ n2"
      "list_all (\<lambda>en. \<not> is_direct en \<and> is_init_call en) n2"
    by blast
  have a: "\<exists>n. calls (fold (run_task D) (j # js) m) = calls m @ n
      \<and> list_all (\<lambda>en. \<not> is_direct en \<and> is_init_call en) n"
    using n1 n2 by simp
  have b: "length (tasks (fold (run_task D) (j # js) m)) = length (tasks m)"
    using IH r by simp
  have c: "init_task (db (fold (run_task D) (j # js) m)) = init_task (db m)"
    using IH run_task_facts(3) [of D j m] by simp
  have d: "tasks (fold (run_task D) (j # js) m) ! i \<noteq> Pending"
    if "i < length (tasks m)" "i \<in> set (j # js) \<or> tasks m ! i \<noteq> Pending" for i
  proof -
    have "i \<in> set js \<or> tasks (run_task D j m) ! i \<noteq> Pending"
      using that r by (cases "i = j") auto
    moreover have "i < length (tasks (run_task D j m))" using that r by simp
    ultimately show ?thesis using IH by auto
  qed
  from a b c d show ?case by blast
qed

lemma loop_iteration_facts:
  "\<exists>n. calls (loop_iteration D m) = calls m @ n
      \<and> list_all (\<lambda>en. \<not> is_direct en \<and> is_init_call en) n"
  "length (tasks (loop_iteration D m)) = length (tasks m)"
  "init_task (db (loop_iteration D m)) = init_task (db m)"
  "i < length (tasks m) \<Longrightarrow> tasks (loop_iteration D m) ! i \<noteq> Pending"
proof -
  note f = fold_run_task_facts [of D "pending_tasks m" m]
  show "\<exists>n. calls (loop_iteration D m) = calls m @ n
      \<and> list_all (\<lambda>en. \<not> is_direct en \<and> is_init_call en) n"
    using f by (simp add: loop_iteration_def)
  show "length (tasks (loop_iteration D m)) = length (tasks m)"
    using f by (simp add: loop_iteration_def)
  show "init_task (db (loop_iteration D m)) = init_task (db m)"
    using f by (simp add: loop_iteration_def)
  show "tasks (loop_iteration D m) ! i \<noteq> Pending" if "i < length (tasks m)"
  proof -
    have "i \<in> set (pending_tasks m) \<or> tasks m ! i \<noteq> Pending"
      using that by (simp add: pending_tasks_def)
    with f that show ?thesis unfolding loop_iteration_def by blast
  qed
qed




lemma snd_await_init_task: "snd (await_init_task D m) = loop_iteration D m"
  by (simp add: await_init_task_def Let_def split: option.splits task_state.splits)

lemma ensure_session_pending:
  assumes "task_pending m"
  shows "snd (ensure_session D m) = loop_iteration D m"
    and "\<exists>i. init_task (db m) = Some i \<and> i < length (tasks m) \<and> i \<in> set (pending_tasks m)"
  using assms
  by (auto simp: ensure_session_def snd_await_init_task task_pending_def pending_tasks_def
      split: option.splits)

lemma ensure_session_fresh:
  assumes "\<not> task_pending m"
    and "connection (db m) = None \<or> time_time D (world m) - auth_time (db m) > 1800"
  shows "ensure_session D m = init_database D Direct m"
  using assms by (auto simp: ensure_session_def AUTH_EXPIRATION_TIME_def)

lemma ensure_session_valid:
  assumes "\<not> task_pending m"
    and "\<not> (connection (db m) = None \<or> time_time D (world m) - auth_time (db m) > 1800)"
  shows "ensure_session D m = (Inr (), m)"
  using assms by (auto simp: ensure_session_def AUTH_EXPIRATION_TIME_def)











subsection \<open>\<open>test_connection\<close> never raises\<close>

lemma reportsD:
  "reports R f \<Longrightarrow> \<exists>new. calls (snd (f s)) = calls s @ new \<and> R new (outcome (fst (f s)))"
  by (simp add: reports_def)

lemma outcome_simps [simp]: "outcome (Inl e) = Some e" "outcome (Inr x) = None"
  by (simp_all add: outcome_def)

lemma reports_andthen:
  assumes c: "composable R" and f: "reports R f" and h: "\<And>x. reports R (h x)"
  shows "reports R (andthen f h)"
  unfolding reports_def
proof
  fix s
  obtain n1 where n1: "calls (snd (f s)) = calls s @ n1" "R n1 (outcome (fst (f s)))"
    using reportsD [OF f] by blast
  show "\<exists>new. calls (snd (andthen f h s)) = calls s @ new
      \<and> R new (outcome (fst (andthen f h s)))"
  proof (cases rule: prog_cases [of f s])
    case (Raised e s')
    with n1 show ?thesis by (auto simp: andthen_Inl)
  next
    case (Returned x s')
    obtain n2 where n2: "calls (snd (h x s')) = calls s' @ n2" "R n2 (outcome (fst (h x s')))"
      using reportsD [OF h] by blast
    from n1 Returned have "R n1 None" by simp
    with n2(2) c have "R (n1 @ n2) (outcome (fst (h x s')))"
      unfolding composable_def by blast
    with n1 n2 Returned show ?thesis by (auto simp: andthen_Inr)
  qed
qed

lemma reports_pure:
  assumes "composable R"
  shows "reports R (return x)" "reports R (raise e)" "reports R (lift r)"
    "reports R (logger_call lvl msg)" "reports R (uuid4 D)"
  using assms
  by (simp_all add: composable_def reports_def return_def raise_def lift_def logger_call_def
      uuid4_def split: prod.splits)


lemma reports_adds:
  assumes "adds Q f" and "\<And>new r. list_all Q new \<Longrightarrow> R new r"
  shows "reports R f"
  unfolding reports_def using addsD [OF assms(1)] assms(2) by blast

lemma reports_driver_call:
  assumes "\<And>r. R [(who, c, r)] r"
  shows "reports R (driver_call who c f)"
  using assms by (simp add: reports_def driver_call_def split: prod.splits)

lemma reports_cursor:
  assumes "composable R" and "\<And>c r. \<not> is_init_call (Direct, c, r) \<Longrightarrow> R [(Direct, c, r)] r"
  shows "reports R (cursor_execute D q)" "reports R (cursor_fetchone D)"
    "reports R (cursor_fetchall D)" "reports R (cursor_description D)"
  unfolding cursor_execute_def cursor_fetchone_def cursor_fetchall_def cursor_description_def
  using assms
  by (auto simp: reports_def composable_def driver_call_def split: option.splits prod.splits)


lemma composable_passed_on: "composable passed_on"
  unfolding composable_def
proof (intro conjI allI impI)
  show "passed_on [] r" for r by (simp add: passed_on_def)
next
  fix n1 n2 r
  assume a: "passed_on n1 None \<and> passed_on n2 r"
  then have 1: "list_all went_well n1" by (simp add: passed_on_def)
  from a have 2: "list_all went_well (butlast n2)" "r = None \<longrightarrow> list_all went_well n2"
    "list_all (\<lambda>en. went_well en \<or> r = snd (snd en)) n2"
    by (simp_all add: passed_on_def)
  have "list_all went_well (butlast (n1 @ n2))"
    using 1 2(1) by (cases "n2 = []") (auto simp: butlast_append list_all_iff dest: in_set_butlastD)
  moreover have "list_all (\<lambda>en. went_well en \<or> r = snd (snd en)) (n1 @ n2)"
    using 1 2(3) by (auto simp: list_all_iff)
  ultimately show "passed_on (n1 @ n2) r"
    using 1 2(2) by (simp add: passed_on_def)
qed


lemma passed_on_single: "\<not> is_init_call (who, c, r) \<Longrightarrow> passed_on [(who, c, r)] r"
  by (auto simp: passed_on_def went_well_def)

lemma sublist_chain: "sublist a b \<Longrightarrow> sublist b c \<Longrightarrow> sublist a c"
  using sublist_order.order_trans by blast

lemma told_wrapped:
  "told new (Some e) \<Longrightarrow> told new (Some (connect_failed e))"
  unfolding told_def list_all_iff
  using sublist_chain [OF _ sublist_wrapped] by fastforce


lemma adds_ensure_session: "adds is_init_call (ensure_session D)"
  unfolding adds_def
proof
  fix m :: "'a machine"
  show "\<exists>new. calls (snd (ensure_session D m)) = calls m @ new \<and> list_all is_init_call new"
  proof (cases "task_pending m")
    case True
    with loop_iteration_facts(1) [of D m] show ?thesis
      by (auto simp: ensure_session_pending(1) list_all_iff)
  next
    case False
    show ?thesis
    proof (cases "connection (db m) = None \<or> time_time D (world m) - auth_time (db m) > 1800")
      case True
      with init_database_calls [of D Direct m] show ?thesis
        by (auto simp: ensure_session_fresh [OF False] list_all_iff)
    next
      case c: False
      show ?thesis by (simp add: ensure_session_valid [OF False c])
    qed
  qed
qed












subsection \<open>\<open>execute_query\<close> raises the driver's error again\<close>

lemma reports_passed_on_ensure_session: "reports passed_on (ensure_session D)"
proof (rule reports_adds [OF adds_ensure_session])
  fix new :: "entry list" and r
  assume "list_all is_init_call new"
  then show "passed_on new r"
    by (auto simp: passed_on_def went_well_def list_all_iff dest: in_set_butlastD)
qed

lemma reports_passed_on_execute_query_try: "reports passed_on (execute_query_try D q)"
  unfolding execute_query_try_def
  by (intro reports_andthen reports_cursor reports_pure composable_passed_on passed_on_single)

lemma execute_query_guard_raised:
  assumes "ensure_session D m = (Inl e, m1)"
  shows "execute_query D q m = (Inl e, m1)"
  using assms by (simp add: execute_query_def andthen_Inl)

lemma execute_query_try_raised:
  assumes "ensure_session D m = (Inr (), m1)"
    and "execute_query_try D q (m1\<lparr>logged := logged m1 @ [(DEBUG, ''Executing query: '' @ q)]\<rparr>)
           = (Inl e, m3)"
  shows "execute_query D q m =
           (Inl e, m3\<lparr>logged := logged m3 @ [(ERROR, query_failed q e)]\<rparr>)"
  using assms
  by (simp add: execute_query_def andthen_Inr logger_call_def andthen_def catch_def raise_def
      del: append.simps)

lemma execute_query_try_returned:
  assumes "ensure_session D m = (Inr (), m1)"
    and "execute_query_try D q (m1\<lparr>logged := logged m1 @ [(DEBUG, ''Executing query: '' @ q)]\<rparr>)
           = (Inr r, m3)"
  shows "execute_query D q m = (Inr r, m3)"
  using assms
  by (simp add: execute_query_def andthen_Inr logger_call_def andthen_def catch_def
      del: append.simps)

text \<open>
  Claim C4.  Whenever, during a call of \<open>execute_query\<close>, a driver call other than
  those of the initialization raises an error (the call that executes the statement, reads
  the description or fetches the rows), \<open>execute_query\<close> raises that same error, the
  last record handed to the logger is the error record with the query and the text of the
  error, and the failed call is the last driver call of the whole call: nothing is tried
  again and no initialization follows it.  Every driver call before it either succeeded or
  belongs to the initialization at the start of the call.
\<close>
theorem execute_query_reraises:
  "\<forall>en \<in> set (new_calls m (snd (execute_query D q m))). \<forall>e.
      \<not> is_init_call en \<and> snd (snd en) = Some e \<longrightarrow>
      fst (execute_query D q m) = Inl e
      \<and> last (logged (snd (execute_query D q m)))
          = (ERROR, ''Database error executing '' @ quote_mark @ q @ quote_mark @ '': ''
                    @ exn_text e)
      \<and> (\<exists>pre. new_calls m (snd (execute_query D q m)) = pre @ [en]
            \<and> list_all (\<lambda>en'. is_init_call en' \<or> snd (snd en') = None) pre)"
proof (intro ballI allI impI)
  fix en e
  assume en: "en \<in> set (new_calls m (snd (execute_query D q m)))"
    and f: "\<not> is_init_call en \<and> snd (snd en) = Some e"
  let ?goal = "fst (execute_query D q m) = Inl e
      \<and> last (logged (snd (execute_query D q m)))
          = (ERROR, ''Database error executing '' @ quote_mark @ q @ quote_mark @ '': ''
                    @ exn_text e)
      \<and> (\<exists>pre. new_calls m (snd (execute_query D q m)) = pre @ [en]
            \<and> list_all (\<lambda>en'. is_init_call en' \<or> snd (snd en') = None) pre)"
  obtain n1 where n1: "calls (snd (ensure_session D m)) = calls m @ n1"
      "list_all is_init_call n1"
    using addsD [OF adds_ensure_session] by blast
  show ?goal
  proof (cases rule: prog_cases [of "ensure_session D" m])
    case (Raised e1 m1)
    from execute_query_guard_raised [OF Raised] n1 Raised en f
    have False by (auto simp: new_calls_def list_all_iff)
    then show ?thesis ..
  next
    case (Returned x m1)
    let ?m2 = "m1\<lparr>logged := logged m1 @ [(DEBUG, ''Executing query: '' @ q)]\<rparr>"
    from Returned have g: "ensure_session D m = (Inr (), m1)" by simp
    obtain n2 where n2: "calls (snd (execute_query_try D q ?m2)) = calls ?m2 @ n2"
        "passed_on n2 (outcome (fst (execute_query_try D q ?m2)))"
      using reportsD [OF reports_passed_on_execute_query_try] by blast
    have c2: "calls ?m2 = calls m @ n1" using n1 g by simp
    have new: "new_calls m (snd (execute_query D q m)) = n1 @ n2"
    proof (cases rule: prog_cases [of "execute_query_try D q" ?m2])
      case (Raised e3 m3)
      from execute_query_try_raised [OF g Raised] n2(1) c2 Raised
      show ?thesis by (simp add: new_calls_def)
    next
      case (Returned r m3)
      from execute_query_try_returned [OF g Returned] n2(1) c2 Returned
      show ?thesis by (simp add: new_calls_def)
    qed
    have en2: "en \<in> set n2" using en f n1(2) by (auto simp: new list_all_iff)
    have bad: "\<not> went_well en" using f by (simp add: went_well_def)
    from n2(2) have p: "list_all went_well (butlast n2)"
        "outcome (fst (execute_query_try D q ?m2)) = None \<longrightarrow> list_all went_well n2"
        "list_all (\<lambda>en. went_well en \<or> outcome (fst (execute_query_try D q ?m2)) = snd (snd en)) n2"
      by (simp_all add: passed_on_def)
    from p(3) en2 bad f have "outcome (fst (execute_query_try D q ?m2)) = Some e"
      by (auto simp: list_all_iff)
    then obtain m3 where t: "execute_query_try D q ?m2 = (Inl e, m3)"
      by (cases "execute_query_try D q ?m2"; cases "fst (execute_query_try D q ?m2)") auto
    have "n2 \<noteq> []" using en2 by auto
    then have n2_eq: "n2 = butlast n2 @ [last n2]" by simp
    have "en \<notin> set (butlast n2)" using p(1) bad by (auto simp: list_all_iff)
    with en2 n2_eq have l: "last n2 = en"
      by (metis Un_iff empty_iff empty_set set_ConsD set_append)
    have "list_all (\<lambda>en'. is_init_call en' \<or> snd (snd en') = None) (n1 @ butlast n2)"
      using n1(2) p(1) by (auto simp: list_all_iff went_well_def)
    moreover have "new_calls m (snd (execute_query D q m)) = (n1 @ butlast n2) @ [en]"
      using new n2_eq l by simp
    ultimately have "\<exists>pre. new_calls m (snd (execute_query D q m)) = pre @ [en]
            \<and> list_all (\<lambda>en'. is_init_call en' \<or> snd (snd en') = None) pre"
      by blast
    with execute_query_try_raised [OF g t] show ?thesis
      by (simp add: query_failed_def)
  qed
qed

lemma execute_query_rejected:
  "execute_query rejecting ''SELEC 1'' session_open =
     (Inl (Exn DriverError ''SQL compilation error''),
      session_open\<lparr>world := 3,
        calls := calls session_open
           @ [(Direct, Execute 11 ''SELEC 1'', Some (Exn DriverError ''SQL compilation error''))],
        logged := logged session_open
           @ [(DEBUG, ''Executing query: SELEC 1''),
              (ERROR, ''Database error executing '' @ quote_mark @ ''SELEC 1'' @ quote_mark
                      @ '': SQL compilation error'')]\<rparr>)"
proof -
  have np: "\<not> task_pending session_open"
    by (simp add: task_pending_def session_open_state)
  have "\<not> (connection (db session_open) = None
      \<or> time_time rejecting (world session_open) - auth_time (db session_open) > 1800)"
    by (simp add: session_open_state) (simp add: rejecting_def scripted_def)
  from ensure_session_valid [OF np this]
  have g: "ensure_session rejecting session_open = (Inr (), session_open)" .
  have "execute_query_try rejecting ''SELEC 1''
          (session_open\<lparr>logged := logged session_open @ [(DEBUG, ''Executing query: '' @ ''SELEC 1'')]\<rparr>)
        = (Inl (Exn DriverError ''SQL compilation error''),
           session_open\<lparr>logged := logged session_open @ [(DEBUG, ''Executing query: '' @ ''SELEC 1'')],
             world := 3,
             calls := calls session_open
               @ [(Direct, Execute 11 ''SELEC 1'', Some (Exn DriverError ''SQL compilation error''))]\<rparr>)"
    by (simp add: execute_query_try_def cursor_execute_def session_open_state prog_defs
        rejecting_def scripted_def)
  from execute_query_try_raised [OF g this] show ?thesis
    by (simp add: query_failed_def)
qed

theorem execute_query_reraises_witness:
  "(Direct, Execute 11 ''SELEC 1'', Some (Exn DriverError ''SQL compilation error''))
     \<in> set (new_calls session_open (snd (execute_query rejecting ''SELEC 1'' session_open)))
   \<and> fst (execute_query rejecting ''SELEC 1'' session_open)
     = Inl (Exn DriverError ''SQL compilation error'')
   \<and> last (logged (snd (execute_query rejecting ''SELEC 1'' session_open)))
     = (ERROR, ''Database error executing '' @ quote_mark @ ''SELEC 1'' @ quote_mark
               @ '': SQL compilation error'')"
proof -
  have mem: "(Direct, Execute 11 ''SELEC 1'', Some (Exn DriverError ''SQL compilation error''))
     \<in> set (new_calls session_open (snd (execute_query rejecting ''SELEC 1'' session_open)))"
    by (simp add: execute_query_rejected new_calls_def)
  from execute_query_reraises [of session_open rejecting "''SELEC 1''"] mem
  have "fst (execute_query rejecting ''SELEC 1'' session_open)
          = Inl (Exn DriverError ''SQL compilation error'')
      \<and> last (logged (snd (execute_query rejecting ''SELEC 1'' session_open)))
          = (ERROR, ''Database error executing '' @ quote_mark @ ''SELEC 1'' @ quote_mark @ '': ''
                    @ exn_text (Exn DriverError ''SQL compilation error''))"
    by fastforce
  with mem show ?thesis by simp
qed

subsection \<open>The result of \<open>execute_query\<close>\<close>

lemma foldl_update_keys:
  "fst ` set (foldl (\<lambda>d (k, v). AList.update k v d) d ps) = fst ` set d \<union> fst ` set ps"
proof (induction ps arbitrary: d)
  case Nil
  show ?case by simp
next
  case (Cons p ps)
  obtain k v where p: "p = (k, v)" by (cases p)
  have "fst ` set (foldl (\<lambda>d (k, v). AList.update k v d) d (p # ps))
      = fst ` set (AList.update k v d) \<union> fst ` set ps"
    using Cons.IH [of "AList.update k v d"] p by simp
  also have "\<dots> = fst ` set d \<union> fst ` set (p # ps)"
    using p by (auto simp: dom_update)
  finally show ?case .
qed

lemma foldl_update_distinct:
  "distinct (map fst d) \<Longrightarrow> distinct (map fst (foldl (\<lambda>d (k, v). AList.update k v d) d ps))"
  by (induction ps arbitrary: d) (auto simp: distinct_update split: prod.splits)

lemma foldl_update_map_of:
  "map_of (foldl (\<lambda>d (k, v). AList.update k v d) d ps) = map_of d ++ map_of (rev ps)"
proof (induction ps arbitrary: d)
  case Nil
  show ?case by simp
next
  case (Cons p ps)
  obtain k v where p: "p = (k, v)" by (cases p)
  have "map_of (foldl (\<lambda>d (k, v). AList.update k v d) d (p # ps))
      = map_of (AList.update k v d) ++ map_of (rev ps)"
    using Cons.IH [of "AList.update k v d"] p by simp
  also have "\<dots> = (map_of d ++ [k \<mapsto> v]) ++ map_of (rev ps)"
    by (simp add: update_conv')
  also have "\<dots> = map_of d ++ map_of (rev (p # ps))"
    using p by (simp add: map_add_assoc)
  finally show ?case .
qed


lemma dict_of_distinct_keys: "distinct (map fst (dict_of ps))"
  by (simp add: dict_of_def foldl_update_distinct)

lemma dict_of_keys: "fst ` set (dict_of ps) = fst ` set ps"
  by (simp add: dict_of_def foldl_update_keys)

lemma dict_of_last_wins: "map_of (dict_of ps) = map_of (rev ps)"
  by (simp add: dict_of_def foldl_update_map_of)



lemma map_of_rev_rightmost:
  assumes "c \<notin> fst ` set post"
  shows "map_of (rev (pre @ (c, v) # post)) c = Some v"
proof -
  have "map_of (rev post) c = None"
    using assms by (simp add: map_of_eq_None_iff)
  then show ?thesis by (simp add: map_add_def)
qed

lemma dict_of_zip_rightmost:
  assumes len: "length row = length cols" and j: "j < length cols"
    and last: "\<forall>j' < length cols. j < j' \<longrightarrow> cols ! j' \<noteq> cols ! j"
  shows "map_of (dict_of (zip cols row)) (cols ! j) = Some (row ! j)"
proof -
  have c: "cols = take j cols @ cols ! j # drop (Suc j) cols"
    using j by (simp add: id_take_nth_drop)
  have r: "row = take j row @ row ! j # drop (Suc j) row"
    using j len by (simp add: id_take_nth_drop)
  have "zip cols row = zip (take j cols @ cols ! j # drop (Suc j) cols)
      (take j row @ row ! j # drop (Suc j) row)"
    using c r by simp
  also have "\<dots> = zip (take j cols) (take j row) @ (cols ! j, row ! j)
      # zip (drop (Suc j) cols) (drop (Suc j) row)"
    using len by (simp add: zip_append)
  finally have z: "zip cols row = zip (take j cols) (take j row) @ (cols ! j, row ! j)
      # zip (drop (Suc j) cols) (drop (Suc j) row)" .
  have "cols ! j \<notin> set (drop (Suc j) cols)"
  proof
    assume "cols ! j \<in> set (drop (Suc j) cols)"
    then obtain i where "i < length (drop (Suc j) cols)" "drop (Suc j) cols ! i = cols ! j"
      by (auto simp: in_set_conv_nth)
    then have "Suc j + i < length cols" "cols ! (Suc j + i) = cols ! j" by auto
    with last show False by auto
  qed
  then have "cols ! j \<notin> fst ` set (zip (drop (Suc j) cols) (drop (Suc j) row))"
    by (auto dest: set_zip_leftD)
  from map_of_rev_rightmost [OF this] show ?thesis
    by (simp add: dict_of_last_wins z del: rev_append rev.simps)
qed

lemma key_occurs_once:
  "c \<in> set (map fst al) \<Longrightarrow> distinct (map fst al) \<Longrightarrow>
     length (filter (\<lambda>kv. fst kv = c) al) = 1"
  by (induction al) (auto simp: filter_empty_conv rev_image_eqI)

lemma dict_of_zip_duplicates:
  assumes len: "length row = length cols" and dup: "\<not> distinct cols"
  shows "length (dict_of (zip cols row)) < length cols"
    and "set (map fst (dict_of (zip cols row))) = set cols"
    and "c \<in> set cols \<Longrightarrow> length (filter (\<lambda>kv. fst kv = c) (dict_of (zip cols row))) = 1"
proof -
  let ?d = "dict_of (zip cols row)"
  have k: "map fst (zip cols row) = cols" using len by simp
  have s: "set (map fst ?d) = set cols"
    using dict_of_keys [of "zip cols row"] k by (metis set_map)
  show "set (map fst ?d) = set cols" by (rule s)
  have "length ?d = length (map fst ?d)" by simp
  also have "\<dots> = card (set (map fst ?d))"
    using distinct_card [OF dict_of_distinct_keys [of "zip cols row"]] by simp
  also have "\<dots> = card (set cols)" using s by simp
  also have "\<dots> < length cols"
    using dup card_distinct [of cols] card_length [of cols] by (cases "card (set cols) = length cols") auto
  finally show "length ?d < length cols" .
  show "length (filter (\<lambda>kv. fst kv = c) ?d) = 1" if "c \<in> set cols"
  proof -
    have "c \<in> set (map fst ?d)" using that s by simp
    moreover have "distinct (map fst ?d)" by (rule dict_of_distinct_keys)
    ultimately show ?thesis by (rule key_occurs_once)
  qed
qed

lemma execute_query_result:
  assumes guard: "ensure_session D m = (Inr (), m1)" and cur: "cursor (db m1) = Some k"
    and ex: "cur_execute D k q (world m1) = (Inr (), w2)"
    and de: "cur_description D k w2 = (Inr (Some descs), w3)"
    and fa: "cur_fetchall D k w3 = (Inr rows, w4)"
    and rnd: "os_urandom16 D w4 = (rb, w5)"
  shows "fst (execute_query D q m) =
     Inr (map (\<lambda>row. dict_of (zip (map fst descs) row)) rows, uuid_str (uuid4_int rb))"
proof -
  let ?m2 = "m1\<lparr>logged := logged m1 @ [(DEBUG, ''Executing query: '' @ q)]\<rparr>"
  have "fst (execute_query_try D q ?m2) =
     Inr (map (\<lambda>row. dict_of (zip (map fst descs) row)) rows, uuid_str (uuid4_int rb))"
    using cur ex de fa rnd
    by (simp add: execute_query_try_def cursor_execute_def cursor_description_def
        cursor_fetchall_def column_names_def uuid4_def prog_defs)
  then obtain m3 where "execute_query_try D q ?m2 =
     (Inr (map (\<lambda>row. dict_of (zip (map fst descs) row)) rows, uuid_str (uuid4_int rb)), m3)"
    by (cases "execute_query_try D q ?m2") simp
  from execute_query_try_returned [OF guard this] show ?thesis by simp
qed












text \<open>
  Claim C10.  Let the session check pass, and let the driver execute the query and deliver
  a description in which a column name occurs twice, with rows that each have as many
  values as there are columns.  Then in the mapping of every row each column name occurs
  exactly once, the names of the mapping are the column names, a name is bound to the
  value of the rightmost column of that name, and the mapping has fewer entries than
  there are columns.
\<close>
theorem execute_query_duplicate_columns:
  assumes guard: "ensure_session D m = (Inr (), m1)" and cur: "cursor (db m1) = Some k"
    and ex: "cur_execute D k q (world m1) = (Inr (), w2)"
    and de: "cur_description D k w2 = (Inr (Some descs), w3)"
    and fa: "cur_fetchall D k w3 = (Inr rows, w4)"
    and rnd: "os_urandom16 D w4 = (rb, w5)"
    and dup: "\<not> distinct (map fst descs)"
    and len: "\<forall>row \<in> set rows. length row = length descs"
  shows "\<exists>res ident. fst (execute_query D q m) = Inr (res, ident)
      \<and> length res = length rows
      \<and> (\<forall>i < length rows.
            (\<forall>c \<in> set (map fst descs). length (filter (\<lambda>kv. fst kv = c) (res ! i)) = 1)
            \<and> set (map fst (res ! i)) = set (map fst descs)
            \<and> (\<forall>j < length descs.
                  (\<forall>j' < length descs. j < j' \<longrightarrow> fst (descs ! j') \<noteq> fst (descs ! j))
                  \<longrightarrow> map_of (res ! i) (fst (descs ! j)) = Some (rows ! i ! j))
            \<and> length (res ! i) < length descs)"
proof -
  let ?cols = "map fst descs"
  let ?res = "map (\<lambda>row. dict_of (zip ?cols row)) rows"
  have r: "fst (execute_query D q m) = Inr (?res, uuid_str (uuid4_int rb))"
    by (rule execute_query_result [OF guard cur ex de fa rnd])
  have rows: "(\<forall>c \<in> set ?cols. length (filter (\<lambda>kv. fst kv = c) (?res ! i)) = 1)
            \<and> set (map fst (?res ! i)) = set ?cols
            \<and> (\<forall>j < length descs.
                  (\<forall>j' < length descs. j < j' \<longrightarrow> fst (descs ! j') \<noteq> fst (descs ! j))
                  \<longrightarrow> map_of (?res ! i) (fst (descs ! j)) = Some (rows ! i ! j))
            \<and> length (?res ! i) < length descs"
    if i: "i < length rows" for i
  proof -
    have l: "length (rows ! i) = length ?cols" using len i by simp
    note d = dict_of_zip_duplicates [OF l dup]
    have "map_of (dict_of (zip ?cols (rows ! i))) (fst (descs ! j)) = Some (rows ! i ! j)"
      if j: "j < length descs"
        and last: "\<forall>j' < length descs. j < j' \<longrightarrow> fst (descs ! j') \<noteq> fst (descs ! j)" for j
    proof -
      have "\<forall>j' < length ?cols. j < j' \<longrightarrow> ?cols ! j' \<noteq> ?cols ! j"
        using last j by simp
      from dict_of_zip_rightmost [OF l _ this] j show ?thesis by simp
    qed
    with d i show ?thesis by simp
  qed
  then have rows': "\<forall>i < length rows.
            (\<forall>c \<in> set ?cols. length (filter (\<lambda>kv. fst kv = c) (?res ! i)) = 1)
            \<and> set (map fst (?res ! i)) = set ?cols
            \<and> (\<forall>j < length descs.
                  (\<forall>j' < length descs. j < j' \<longrightarrow> fst (descs ! j') \<noteq> fst (descs ! j))
                  \<longrightarrow> map_of (?res ! i) (fst (descs ! j)) = Some (rows ! i ! j))
            \<and> length (?res ! i) < length descs"
    by blast
  have n: "length ?res = length rows" by simp
  from r n rows' show ?thesis by blast
qed

lemma session_open_valid:
  "ensure_session scripted session_open = (Inr (), session_open)"
  "ensure_session ambiguous session_open = (Inr (), session_open)"
proof -
  have np: "\<not> task_pending session_open"
    by (simp add: task_pending_def session_open_state)
  have "\<not> (connection (db session_open) = None
      \<or> time_time scripted (world session_open) - auth_time (db session_open) > 1800)"
    by (simp add: session_open_state) (simp add: scripted_def)
  from ensure_session_valid [OF np this]
  show "ensure_session scripted session_open = (Inr (), session_open)" .
  have "\<not> (connection (db session_open) = None
      \<or> time_time ambiguous (world session_open) - auth_time (db session_open) > 1800)"
    by (simp add: session_open_state) (simp add: ambiguous_def scripted_def)
  from ensure_session_valid [OF np this]
  show "ensure_session ambiguous session_open = (Inr (), session_open)" .
qed


lemma session_open_query:
  "cursor (db session_open) = Some 11"
  "cur_execute scripted 11 q (world session_open) = (Inr (), 3)"
  "cur_execute ambiguous 11 q (world session_open) = (Inr (), 3)"
  "cur_description scripted 11 3 = (Inr (Some [(''id'', 0), (''name'', 2)]), 3)"
  "cur_description ambiguous 11 3 = (Inr (Some [(''id'', 0), (''id'', 0)]), 3)"
  "cur_fetchall scripted 11 3 = (Inr [[PInt 1, PStr ''a''], [PInt 2, PStr ''b'']], 4)"
  "cur_fetchall ambiguous 11 3 = (Inr [[PInt 1, PStr ''a''], [PInt 2, PStr ''b'']], 4)"
  "os_urandom16 scripted 4 = (4, 5)"
  "os_urandom16 ambiguous 4 = (4, 5)"
  by (simp_all add: session_open_state ambiguous_def scripted_def)




theorem execute_query_duplicate_columns_witness:
  "ensure_session ambiguous session_open = (Inr (), session_open)
   \<and> cursor (db session_open) = Some 11
   \<and> cur_execute ambiguous 11 ''SELECT a.id, b.id FROM a, b'' (world session_open) = (Inr (), 3)
   \<and> cur_description ambiguous 11 3 = (Inr (Some [(''id'', 0), (''id'', 0)]), 3)
   \<and> cur_fetchall ambiguous 11 3 = (Inr [[PInt 1, PStr ''a''], [PInt 2, PStr ''b'']], 4)
   \<and> os_urandom16 ambiguous 4 = (4, 5)
   \<and> \<not> distinct (map fst [(''id'', 0::nat), (''id'', 0)])
   \<and> (\<exists>res ident.
        fst (execute_query ambiguous ''SELECT a.id, b.id FROM a, b'' session_open) = Inr (res, ident)
        \<and> length res = 2
        \<and> length (filter (\<lambda>kv. fst kv = ''id'') (res ! 0)) = 1
        \<and> map_of (res ! 0) ''id'' = Some (PStr ''a'')
        \<and> map_of (res ! 1) ''id'' = Some (PStr ''b'')
        \<and> length (res ! 0) < 2)"
proof -
  have d: "\<not> distinct (map fst [(''id'', 0::nat), (''id'', 0)])" by simp
  have l: "\<forall>row \<in> set [[PInt 1, PStr ''a''], [PInt 2, PStr ''b'']].
      length row = length [(''id'', 0::nat), (''id'', 0)]"
    by simp
  from execute_query_duplicate_columns [OF session_open_valid(2) session_open_query(1)
      session_open_query(3) session_open_query(5) session_open_query(7)
      session_open_query(9) d l, of "''SELECT a.id, b.id FROM a, b''"]
  obtain res ident where r1:
      "fst (execute_query ambiguous ''SELECT a.id, b.id FROM a, b'' session_open) = Inr (res, ident)"
    and r2: "length res = length [[PInt 1, PStr ''a''], [PInt 2, PStr ''b'']]"
    and r3: "\<forall>i < length [[PInt 1, PStr ''a''], [PInt 2, PStr ''b'']].
            (\<forall>c \<in> set (map fst [(''id'', 0::nat), (''id'', 0)]).
                length (filter (\<lambda>kv. fst kv = c) (res ! i)) = 1)
            \<and> set (map fst (res ! i)) = set (map fst [(''id'', 0::nat), (''id'', 0)])
            \<and> (\<forall>j < length [(''id'', 0::nat), (''id'', 0)].
                  (\<forall>j' < length [(''id'', 0::nat), (''id'', 0)]. j < j' \<longrightarrow>
                      fst ([(''id'', 0::nat), (''id'', 0)] ! j') \<noteq> fst ([(''id'', 0::nat), (''id'', 0)] ! j))
                  \<longrightarrow> map_of (res ! i) (fst ([(''id'', 0::nat), (''id'', 0)] ! j))
                      = Some ([[PInt 1, PStr ''a''], [PInt 2, PStr ''b'']] ! i ! j))
            \<and> length (res ! i) < length [(''id'', 0::nat), (''id'', 0)]"
    by blast
  have i0: "(0::nat) < length [[PInt 1, PStr ''a''], [PInt 2, PStr ''b'']]"
    and i1: "(1::nat) < length [[PInt 1, PStr ''a''], [PInt 2, PStr ''b'']]"
    by simp_all
  have last: "\<forall>j' < length [(''id'', 0::nat), (''id'', 0)]. (1::nat) < j' \<longrightarrow>
      fst ([(''id'', 0::nat), (''id'', 0)] ! j') \<noteq> fst ([(''id'', 0::nat), (''id'', 0)] ! 1)"
    by simp
  have j1: "(1::nat) < length [(''id'', 0::nat), (''id'', 0)]" by simp
  from r3 [rule_format, OF i0] have a0:
      "length (filter (\<lambda>kv. fst kv = ''id'') (res ! 0)) = 1" "length (res ! 0) < 2"
    by simp_all
  from r3 [rule_format, OF i0] j1 last
  have "map_of (res ! 0) (fst ([(''id'', 0::nat), (''id'', 0)] ! 1))
      = Some ([[PInt 1, PStr ''a''], [PInt 2, PStr ''b'']] ! 0 ! 1)"
    by blast
  then have b0: "map_of (res ! 0) ''id'' = Some (PStr ''a'')" by simp
  from r3 [rule_format, OF i1] j1 last
  have "map_of (res ! 1) (fst ([(''id'', 0::nat), (''id'', 0)] ! 1))
      = Some ([[PInt 1, PStr ''a''], [PInt 2, PStr ''b'']] ! 1 ! 1)"
    by blast
  then have b1: "map_of (res ! 1) ''id'' = Some (PStr ''b'')" by simp
  from r2 have "length res = 2" by simp
  with r1 a0 b0 b1 have "\<exists>res ident.
        fst (execute_query ambiguous ''SELECT a.id, b.id FROM a, b'' session_open) = Inr (res, ident)
        \<and> length res = 2
        \<and> length (filter (\<lambda>kv. fst kv = ''id'') (res ! 0)) = 1
        \<and> map_of (res ! 0) ''id'' = Some (PStr ''a'')
        \<and> map_of (res ! 1) ''id'' = Some (PStr ''b'')
        \<and> length (res ! 0) < 2"
    by blast
  with d session_open_valid(2) session_open_query(1,5,7,9)
    session_open_query(3) [of "''SELECT a.id, b.id FROM a, b''"]
  show ?thesis by simp
qed

end
